theory Spec2Isabelle
  imports Main "HOL-Library.AList"
begin

section \<open>Text: characters, string methods, line splitting\<close>

text \<open>
  A Python \<open>str\<close> is modelled as a \<^typ>\<open>string\<close> whose characters are the code points
  0 .. 255 (the file content after decoding).  The character classes below are the ones the
  interpreter uses for that range: \<open>str.isspace\<close> (also the meaning of \<open>\s\<close> and of
  \<open>strip()\<close> without argument) and the word characters matched by \<open>\w\<close>.
\<close>

definition ord :: "char \<Rightarrow> nat" where
  "ord c = of_char c"

definition is_space :: "char \<Rightarrow> bool" where
  "is_space c = (let n = ord c in
     (9 \<le> n \<and> n \<le> 13) \<or> (28 \<le> n \<and> n \<le> 32) \<or> n = 133 \<or> n = 160)"

definition is_digit :: "char \<Rightarrow> bool" where
  "is_digit c = (let n = ord c in 48 \<le> n \<and> n \<le> 57)"

definition is_word :: "char \<Rightarrow> bool" where
  "is_word c = (let n = ord c in
     (48 \<le> n \<and> n \<le> 57) \<or> (65 \<le> n \<and> n \<le> 90) \<or> n = 95 \<or> (97 \<le> n \<and> n \<le> 122) \<or>
     n = 170 \<or> n = 178 \<or> n = 179 \<or> n = 181 \<or> n = 185 \<or> n = 186 \<or>
     (188 \<le> n \<and> n \<le> 190) \<or> (192 \<le> n \<and> n \<le> 214) \<or> (216 \<le> n \<and> n \<le> 246) \<or>
     (248 \<le> n \<and> n \<le> 255))"

text \<open>\<open>s.lstrip(chars)\<close>, \<open>s.rstrip(chars)\<close>, \<open>s.strip(chars)\<close>: remove every leading
  (trailing) character that belongs to the given set.\<close>

definition lstrip_chars :: "string \<Rightarrow> string \<Rightarrow> string" where
  "lstrip_chars chars s = dropWhile (\<lambda>c. c \<in> set chars) s"

definition rstrip_chars :: "string \<Rightarrow> string \<Rightarrow> string" where
  "rstrip_chars chars s = rev (dropWhile (\<lambda>c. c \<in> set chars) (rev s))"

definition strip_chars :: "string \<Rightarrow> string \<Rightarrow> string" where
  "strip_chars chars s = rstrip_chars chars (lstrip_chars chars s)"

text \<open>\<open>s.strip()\<close>: remove leading and trailing whitespace.\<close>

definition strip :: "string \<Rightarrow> string" where
  "strip s = rev (dropWhile is_space (rev (dropWhile is_space s)))"

definition startswith :: "string \<Rightarrow> string \<Rightarrow> bool" where
  "startswith s p = (take (length p) s = p)"

definition endswith :: "string \<Rightarrow> string \<Rightarrow> bool" where
  "endswith s p = startswith (rev s) (rev p)"

text \<open>\<open>sep.join(xs)\<close>.\<close>

fun join :: "string \<Rightarrow> string list \<Rightarrow> string" where
  "join sep [] = []"
| "join sep [x] = x"
| "join sep (x # y # ys) = x @ sep @ join sep (y # ys)"

text \<open>\<open>s.split(sep)\<close> for a separator of one character: the pieces between the
  separators, empty pieces kept (\<open>"".split(",")\<close> is \<open>[""]\<close>).\<close>

fun split_acc :: "char \<Rightarrow> string \<Rightarrow> string \<Rightarrow> string list" where
  "split_acc sep cur [] = [rev cur]"
| "split_acc sep cur (c # cs) =
     (if c = sep then rev cur # split_acc sep [] cs else split_acc sep (c # cur) cs)"

definition split :: "string \<Rightarrow> char \<Rightarrow> string list" where
  "split s sep = split_acc sep [] s"

text \<open>\<open>s.splitlines()\<close>: the line boundaries below 256 are LF, VT, FF, CR, FS, GS, RS and
  NEL, with CR LF counted as one boundary; a last line without content is not produced.\<close>

definition is_linebreak :: "char \<Rightarrow> bool" where
  "is_linebreak c = (let n = ord c in (10 \<le> n \<and> n \<le> 13) \<or> (28 \<le> n \<and> n \<le> 30) \<or> n = 133)"

fun splitlines_acc :: "string \<Rightarrow> string \<Rightarrow> string list" where
  "splitlines_acc cur [] = (if cur = [] then [] else [rev cur])"
| "splitlines_acc cur [c] =
     (if is_linebreak c then [rev cur] else [rev (c # cur)])"
| "splitlines_acc cur (c # d # cs) =
     (if c = CHR 0x0D \<and> d = CHR 0x0A then rev cur # splitlines_acc [] cs
      else if is_linebreak c then rev cur # splitlines_acc [] (d # cs)
      else splitlines_acc (c # cur) (d # cs))"

definition splitlines :: "string \<Rightarrow> string list" where
  "splitlines s = splitlines_acc [] s"

text \<open>\<open>s.count(c)\<close> for one character.\<close>

definition count :: "string \<Rightarrow> char \<Rightarrow> int" where
  "count s c = int (length (filter (\<lambda>x. x = c) s))"

section \<open>The regular expressions of the parser\<close>

text \<open>
  The fragment of \<open>re\<close> that \<open>parser.py\<close> uses: literals, character classes, greedy
  \<open>*\<close> and \<open>+\<close> (in the source always over one character class), the greedy optional
  \<open>( ... )?\<close>, numbered groups and the anchors \<open>^\<close> and \<open>$\<close> (without the multi-line
  flag).  The matcher is the backtracking one of the library: a greedy repetition takes as
  many characters as it can and gives them back one at a time when the rest of the pattern
  fails; an optional part is tried first and skipped only when the rest fails with it.
\<close>

datatype re =
    Lit string
  | Cls "char \<Rightarrow> bool"
  | Star "char \<Rightarrow> bool"
  | Plus "char \<Rightarrow> bool"
  | Seq re re
  | Opt re
  | Group nat re
  | Bol
  | Eol

text \<open>The rest of the pattern still to be matched: a stack of patterns and of open groups,
  each open group with the input that was left where the group began.\<close>

datatype frame = R re | EndG nat string

type_synonym groups = "nat \<rightharpoonup> string"

fun re_weight :: "re \<Rightarrow> nat" where
  "re_weight (Seq a b) = Suc (re_weight a + re_weight b)"
| "re_weight (Opt a) = Suc (re_weight a)"
| "re_weight (Group n a) = Suc (Suc (re_weight a))"
| "re_weight _ = 1"

fun frame_weight :: "frame \<Rightarrow> nat" where
  "frame_weight (R r) = re_weight r"
| "frame_weight (EndG n s0) = 1"

text \<open>\<open>re_run k p s g\<close>: match the stack \<open>k\<close> against the input \<open>s\<close>, which begins at
  position \<open>p\<close> of the whole string, with the groups \<open>g\<close> captured so far; the result is
  the position where the match ends and its groups.\<close>

function re_run :: "frame list \<Rightarrow> nat \<Rightarrow> string \<Rightarrow> groups \<Rightarrow> (nat \<times> groups) option" where
  "re_run [] p s g = Some (p, g)"
| "re_run (EndG n s0 # k) p s g = re_run k p s (g(n \<mapsto> take (length s0 - length s) s0))"
| "re_run (R (Lit l) # k) p s g =
     (if startswith s l then re_run k (p + length l) (drop (length l) s) g else None)"
| "re_run (R (Cls P) # k) p s g =
     (case s of [] \<Rightarrow> None | c # cs \<Rightarrow> if P c then re_run k (Suc p) cs g else None)"
| "re_run (R (Star P) # k) p s g =
     (case s of
        [] \<Rightarrow> re_run k p s g
      | c # cs \<Rightarrow>
          if P c then
            (case re_run (R (Star P) # k) (Suc p) cs g of
               Some r \<Rightarrow> Some r
             | None \<Rightarrow> re_run k p s g)
          else re_run k p s g)"
| "re_run (R (Plus P) # k) p s g =
     (case s of [] \<Rightarrow> None | c # cs \<Rightarrow> if P c then re_run (R (Star P) # k) (Suc p) cs g else None)"
| "re_run (R (Seq a b) # k) p s g = re_run (R a # R b # k) p s g"
| "re_run (R (Opt a) # k) p s g =
     (case re_run (R a # k) p s g of Some r \<Rightarrow> Some r | None \<Rightarrow> re_run k p s g)"
| "re_run (R (Group n a) # k) p s g = re_run (R a # EndG n s # k) p s g"
| "re_run (R Bol # k) p s g = (if p = 0 then re_run k p s g else None)"
| "re_run (R Eol # k) p s g = (if s = [] \<or> s = [CHR 0x0A] then re_run k p s g else None)"
  by pat_completeness auto
termination
  by (relation "measures [\<lambda>(k, p, s, g). sum_list (map frame_weight k), \<lambda>(k, p, s, g). length s]")
     auto

text \<open>\<open>re.match(pattern, s)\<close>: a match that begins at the start of \<open>s\<close> (and may end
  anywhere); the result gives the text of each group that took part.\<close>

definition re_match :: "re \<Rightarrow> string \<Rightarrow> groups option" where
  "re_match r s = map_option snd (re_run [R r] 0 s Map.empty)"

text \<open>The first match at or after a position (\<open>re.search\<close>), as its begin and end.\<close>

fun re_search_from :: "re \<Rightarrow> nat \<Rightarrow> string \<Rightarrow> (nat \<times> nat) option" where
  "re_search_from r p [] = map_option (\<lambda>(e, g). (p, e)) (re_run [R r] p [] Map.empty)"
| "re_search_from r p (c # cs) =
     (case re_run [R r] p (c # cs) Map.empty of
        Some (e, g) \<Rightarrow> Some (p, e)
      | None \<Rightarrow> re_search_from r (Suc p) cs)"

text \<open>\<open>re.sub(pattern, "", s, count=1)\<close>: delete the first match, if there is one.  (No
  pattern of the source matches the empty string.)\<close>

definition re_sub_first :: "re \<Rightarrow> string \<Rightarrow> string" where
  "re_sub_first r s =
     (case re_search_from r 0 s of None \<Rightarrow> s | Some (b, e) \<Rightarrow> take b s @ drop e s)"

fun seqs :: "re list \<Rightarrow> re" where
  "seqs [] = Lit []"
| "seqs [r] = r"
| "seqs (r # rs) = Seq r (seqs rs)"

text \<open>The patterns, in the order of their appearance in \<open>parser.py\<close>.\<close>

definition re_namespace :: re where
  \<comment> \<open>\<^verbatim>\<open>namespace\s+([\w\.]+)\s*;\<close>\<close>
  "re_namespace = seqs [Lit ''namespace'', Plus is_space,
     Group 1 (Plus (\<lambda>c. is_word c \<or> c = CHR ''.'')), Star is_space, Lit '';'']"

definition re_attribute :: re where
  \<comment> \<open>\<^verbatim>\<open>attribute\s+"([^"]+)"\s*;\<close>\<close>
  "re_attribute = seqs [Lit ''attribute'', Plus is_space, Lit [CHR 0x22],
     Group 1 (Plus (\<lambda>c. c \<noteq> CHR 0x22)), Lit [CHR 0x22], Star is_space, Lit '';'']"

definition re_enum :: re where
  \<comment> \<open>\<^verbatim>\<open>enum\s+(\w+)\s*:\s*(\w+)\s*{\<close>\<close>
  "re_enum = seqs [Lit ''enum'', Plus is_space, Group 1 (Plus is_word), Star is_space,
     Lit '':'', Star is_space, Group 2 (Plus is_word), Star is_space, Lit ''{'']"

definition re_union :: re where
  \<comment> \<open>\<^verbatim>\<open>union\s+(\w+)\s*{\<close>\<close>
  "re_union = seqs [Lit ''union'', Plus is_space, Group 1 (Plus is_word), Star is_space,
     Lit ''{'']"

definition re_struct :: re where
  \<comment> \<open>\<^verbatim>\<open>struct\s+(\w+)\s*{\<close>\<close>
  "re_struct = seqs [Lit ''struct'', Plus is_space, Group 1 (Plus is_word), Star is_space,
     Lit ''{'']"

definition re_table :: re where
  \<comment> \<open>\<^verbatim>\<open>table\s+(\w+)\s*{\<close>\<close>
  "re_table = seqs [Lit ''table'', Plus is_space, Group 1 (Plus is_word), Star is_space,
     Lit ''{'']"

definition re_root_type :: re where
  \<comment> \<open>\<^verbatim>\<open>root_type\s+(\w+)\s*;\<close>\<close>
  "re_root_type = seqs [Lit ''root_type'', Plus is_space, Group 1 (Plus is_word),
     Star is_space, Lit '';'']"

definition re_open_brace :: re where
  \<comment> \<open>\<^verbatim>\<open>^[^{]*{\<close>\<close>
  "re_open_brace = seqs [Bol, Star (\<lambda>c. c \<noteq> CHR ''{''), Lit ''{'']"

definition re_close_brace :: re where
  \<comment> \<open>\<^verbatim>\<open>}[^}]*$\<close>\<close>
  "re_close_brace = seqs [Lit ''}'', Star (\<lambda>c. c \<noteq> CHR ''}''), Eol]"

definition re_field :: re where
  \<comment> \<open>\<^verbatim>\<open>(\w+)\s*:\s*([\w\[\]]+)(\s*=\s*[^()]+)?(\s*\([^)]*\))?\<close>\<close>
  "re_field = seqs [Group 1 (Plus is_word), Star is_space, Lit '':'', Star is_space,
     Group 2 (Plus (\<lambda>c. is_word c \<or> c = CHR ''['' \<or> c = CHR '']'')),
     Opt (Group 3 (seqs [Star is_space, Lit ''='', Star is_space,
                         Plus (\<lambda>c. c \<noteq> CHR ''('' \<and> c \<noteq> CHR '')'')])),
     Opt (Group 4 (seqs [Star is_space, Lit ''('', Star (\<lambda>c. c \<noteq> CHR '')''), Lit '')'']))]"

text \<open>\<open>match.group(n)\<close> of a group that takes part in every match of its pattern.\<close>

definition group :: "groups \<Rightarrow> nat \<Rightarrow> string" where
  "group m n = (case m n of Some s \<Rightarrow> s | None \<Rightarrow> [])"

section \<open>Errors and integers\<close>

text \<open>
  The exceptions that can leave the parser: \<open>int(v)\<close> rejecting the text \<open>v\<close> as a literal
  (the message of this \<open>ValueError\<close> is \<open>invalid literal for int() with base 10:\<close> followed
  by the quoted text and nothing else), \<open>int(v)\<close> refusing a literal of too many digits (the
  message of this \<open>ValueError\<close> gives the limit and the number of digits), the unpacking of
  \<open>item.split("=")\<close> into two names finding more than two pieces (\<open>ValueError: too many
  values to unpack\<close>), an index past the end of \<open>lines\<close>, and a failure of \<open>open\<close> or
  \<open>read\<close>.
\<close>

datatype error =
    ValueError_int string
  | ValueError_digits nat
  | ValueError_unpack
  | IndexError
  | ReadError

text \<open>
  \<open>int(s)\<close> in base 10, in the order of the interpreter: leading whitespace is skipped,
  then an optional sign; a digit string may not begin with an underscore; the digits are
  scanned, with single underscores allowed between digits; a scan of more than 4300 digits
  (the default of \<open>sys.get_int_max_str_digits()\<close>) is refused before anything after the
  digits is looked at; then there must be at least one digit and only whitespace after the
  digits.
\<close>

definition is_int_space :: "char \<Rightarrow> bool" where
  "is_int_space c = (let n = ord c in (9 \<le> n \<and> n \<le> 13) \<or> n = 32 \<or> n = 133 \<or> n = 160)"

definition int_max_str_digits :: nat where
  "int_max_str_digits = 4300"

text \<open>The scan of digits and underscores: the number of digits, their value and the text
  left after them, or a misplaced underscore.\<close>

datatype scan = ScanBad | Scanned nat int string

fun int_scan :: "nat \<Rightarrow> int \<Rightarrow> bool \<Rightarrow> string \<Rightarrow> scan" where
  "int_scan digits acc after_underscore [] =
     (if after_underscore then ScanBad else Scanned digits acc [])"
| "int_scan digits acc after_underscore (c # cs) =
     (if is_digit c then int_scan (Suc digits) (acc * 10 + (int (ord c) - 48)) False cs
      else if c = CHR ''_'' then
        (if after_underscore then ScanBad else int_scan digits acc True cs)
      else if after_underscore then ScanBad
      else Scanned digits acc (c # cs))"

text \<open>The part after the sign; \<open>s\<close> is the whole argument, which the message of an invalid
  literal quotes.\<close>

definition int_unsigned :: "string \<Rightarrow> string \<Rightarrow> error + int" where
  "int_unsigned s u =
     (if startswith u ''_'' then Inl (ValueError_int s)
      else
        (case int_scan 0 0 False u of
           ScanBad \<Rightarrow> Inl (ValueError_int s)
         | Scanned digits v rest \<Rightarrow>
             if int_max_str_digits < digits then Inl (ValueError_digits digits)
             else if digits = 0 \<or> dropWhile is_int_space rest \<noteq> [] then Inl (ValueError_int s)
             else Inr v))"

definition py_int :: "string \<Rightarrow> error + int" where
  "py_int s =
     (case dropWhile is_int_space s of
        [] \<Rightarrow> int_unsigned s []
      | c # cs \<Rightarrow>
          if c = CHR ''+'' then int_unsigned s cs
          else if c = CHR ''-'' then
            (case int_unsigned s cs of Inl e \<Rightarrow> Inl e | Inr v \<Rightarrow> Inr (- v))
          else int_unsigned s (c # cs))"

section \<open>The document\<close>

record field_def =
  f_type :: string
  f_default :: "string option"
  f_metadata :: "string option"
  f_doc :: "string option"
  f_ref :: "string option"

record enum_def =
  e_base_type :: string
  e_values :: "(string \<times> int option) list"
  e_doc :: "string option"

record union_def =
  u_types :: "string list"
  u_doc :: "string option"

record struct_def =
  s_fields :: "(string \<times> field_def) list"
  s_doc :: "string option"

text \<open>\<open>self.data\<close>.  A dictionary is an association list in insertion order;
  \<open>d[k] = v\<close> is \<^const>\<open>AList.update\<close>, which overwrites in place or appends.\<close>

record document =
  namespace :: "string option"
  attributes :: "string list"
  enums :: "(string \<times> enum_def) list"
  unions :: "(string \<times> union_def) list"
  structs :: "(string \<times> struct_def) list"
  tables :: "(string \<times> struct_def) list"
  root_type :: "string option"

definition init_data :: document where
  "init_data = \<lparr>namespace = None, attributes = [], enums = [], unions = [], structs = [],
     tables = [], root_type = None\<rparr>"

section \<open>The block extractor: \<open>_collect_block\<close>\<close>

text \<open>The \<open>while\<close> loop: \<open>depth\<close> is a Python integer and may become negative; the loop
  ends at the first line after which it is zero, or at the end of \<open>lines\<close>.\<close>

function collect_loop :: "string list \<Rightarrow> nat \<Rightarrow> int \<Rightarrow> string list \<Rightarrow> string list \<times> nat" where
  "collect_loop lines i depth content =
     (if i < length lines then
        (let depth' = depth + count (lines ! i) (CHR ''{'') - count (lines ! i) (CHR ''}'');
             content' = content @ [lines ! i]
         in if depth' = 0 then (content', i) else collect_loop lines (i + 1) depth' content')
      else (content, i))"
  by pat_completeness auto
termination
  by (relation "measure (\<lambda>(lines, i, depth, content). length lines - i)") auto

declare collect_loop.simps [simp del]

definition collect_block :: "string list \<Rightarrow> nat \<Rightarrow> string \<times> nat" where
  "collect_block lines start_idx =
     (let (content, i) = collect_loop lines start_idx 0 [];
          body = join [CHR 0x0A] content;
          body = re_sub_first re_open_brace body;
          body = re_sub_first re_close_brace body
      in (strip body, i + 1))"

section \<open>The enum parser: \<open>_parse_enum_values\<close>\<close>

fun enum_items :: "string list \<Rightarrow> (string \<times> int option) list \<Rightarrow> error + (string \<times> int option) list" where
  "enum_items [] values = Inr values"
| "enum_items (raw # rest) values =
     (let item = strip raw in
      if item = [] then enum_items rest values
      else if CHR ''='' \<in> set item then
        (case split item (CHR ''='') of
           [k, v] \<Rightarrow>
             (case py_int (strip v) of
                Inl e \<Rightarrow> Inl e
              | Inr n \<Rightarrow> enum_items rest (AList.update (strip k) (Some n) values))
         | _ \<Rightarrow> Inl ValueError_unpack)
      else enum_items rest (AList.update item None values))"

definition parse_enum_values :: "string \<Rightarrow> error + (string \<times> int option) list" where
  "parse_enum_values body = enum_items (split body (CHR '','')) []"

section \<open>The field parser: \<open>_parse_fields\<close>\<close>

text \<open>\<open>"\n".join(current_doc).strip() if current_doc else None\<close>\<close>

definition doc_text :: "string list \<Rightarrow> string option" where
  "doc_text current_doc =
     (if current_doc = [] then None else Some (strip (join [CHR 0x0A] current_doc)))"

text \<open>\<open>x.strip(chars) if x else None\<close> for an optional group \<open>x\<close>: a group that did not
  take part is \<open>None\<close>, and so is an empty one.\<close>

definition strip_group :: "string \<Rightarrow> string option \<Rightarrow> string option" where
  "strip_group chars x =
     (case x of None \<Rightarrow> None | Some t \<Rightarrow> if t = [] then None else Some (strip_chars chars t))"

text \<open>One iteration of the loop over the lines of a body, on the pair of \<open>fields\<close> and the
  local \<open>current_doc\<close>.\<close>

definition parse_field_line ::
  "string set \<Rightarrow> (string \<times> field_def) list \<times> string list \<Rightarrow> string \<Rightarrow>
   (string \<times> field_def) list \<times> string list" where
  "parse_field_line local_types st raw_line =
     (let fields = fst st; current_doc = snd st; line = strip raw_line in
      if startswith line ''///'' then (fields, current_doc @ [strip (lstrip_chars ''/ '' line)])
      else if startswith line ''/*'' then
        (let block_line = strip (strip_chars ''*/'' (strip_chars ''/* '' line))
         in if block_line \<noteq> [] then (fields, current_doc @ [block_line])
            else (fields, current_doc))
      else if line = [] \<or> startswith line ''}'' then (fields, current_doc)
      else
        (case re_match re_field line of
           None \<Rightarrow> (fields, current_doc)
         | Some m \<Rightarrow>
             (let name = group m 1; ftype = strip (group m 2)
              in (AList.update name
                    \<lparr>f_type = ftype,
                     f_default = strip_group '' ='' (m 3),
                     f_metadata = strip_group ''()'' (m 4),
                     f_doc = doc_text current_doc,
                     f_ref = (if ftype \<in> local_types then Some ftype else None)\<rparr>
                    fields,
                  []))))"

text \<open>\<open>local_types\<close> is computed from \<open>self.data\<close> as it is when the body is parsed.\<close>

definition local_types_of :: "document \<Rightarrow> string set" where
  "local_types_of d = set (map fst (enums d)) \<union> set (map fst (structs d)) \<union> set (map fst (tables d))"

definition parse_fields :: "document \<Rightarrow> string \<Rightarrow> (string \<times> field_def) list" where
  "parse_fields d body =
     fst (foldl (parse_field_line (local_types_of d)) ([], []) (splitlines body))"

section \<open>The top-level scan: \<open>_parse_file\<close>\<close>

text \<open>The inner loop of a block comment.  Reading \<open>lines[i]\<close> past the end raises.\<close>

function block_comment :: "string list \<Rightarrow> nat \<Rightarrow> string list \<Rightarrow> error + (nat \<times> string list)" where
  "block_comment lines i block =
     (if length lines \<le> i then Inl IndexError
      else if endswith (strip (lines ! i)) ''*/'' then Inr (i, block)
      else if length lines \<le> i + 1 then Inl IndexError
      else block_comment lines (i + 1)
             (block @ [strip (strip_chars ''*/'' (strip_chars ''/* '' (lines ! (i + 1))))]))"
  by pat_completeness auto
termination
  by (relation "measure (\<lambda>(lines, i, block). length lines - i)") auto

declare block_comment.simps [simp del]

text \<open>One iteration of the \<open>while i < len(lines)\<close> loop: the new \<open>self.data\<close>,
  \<open>current_doc\<close> and \<open>i\<close>, or the exception that ends the parse.\<close>

definition parse_step ::
  "string list \<Rightarrow> document \<Rightarrow> string list \<Rightarrow> nat \<Rightarrow> error + (document \<times> string list \<times> nat)" where
  "parse_step lines d current_doc i =
     (let line = strip (lines ! i) in
      if startswith line ''///'' then
        Inr (d, current_doc @ [strip (lstrip_chars ''/ '' line)], i + 1)
      else if startswith line ''/*'' then
        (case block_comment lines i [strip (rstrip_chars ''*/'' (lstrip_chars ''/* '' line))] of
           Inl e \<Rightarrow> Inl e
         | Inr (j, block) \<Rightarrow> Inr (d, current_doc @ filter (\<lambda>b. b \<noteq> []) block, j + 1))
      else
       (case re_match re_namespace line of
          Some m \<Rightarrow> Inr (d\<lparr>namespace := Some (group m 1)\<rparr>, current_doc, i + 1)
        | None \<Rightarrow>
       (case re_match re_attribute line of
          Some m \<Rightarrow> Inr (d\<lparr>attributes := attributes d @ [group m 1]\<rparr>, current_doc, i + 1)
        | None \<Rightarrow>
       (case re_match re_enum line of
          Some m \<Rightarrow>
            (let (body, offset) = collect_block lines i in
             (case parse_enum_values body of
                Inl e \<Rightarrow> Inl e
              | Inr vs \<Rightarrow>
                  Inr (d\<lparr>enums := AList.update (group m 1)
                            \<lparr>e_base_type = group m 2, e_values = vs,
                             e_doc = doc_text current_doc\<rparr>
                            (enums d)\<rparr>,
                       [], offset)))
        | None \<Rightarrow>
       (case re_match re_union line of
          Some m \<Rightarrow>
            (let (body, offset) = collect_block lines i;
                 types = filter (\<lambda>t. t \<noteq> []) (map strip (split body (CHR '','')))
             in Inr (d\<lparr>unions := AList.update (group m 1)
                            \<lparr>u_types = types, u_doc = doc_text current_doc\<rparr> (unions d)\<rparr>,
                     [], offset))
        | None \<Rightarrow>
       (case re_match re_struct line of
          Some m \<Rightarrow>
            (let (body, offset) = collect_block lines i
             in Inr (d\<lparr>structs := AList.update (group m 1)
                            \<lparr>s_fields = parse_fields d body, s_doc = doc_text current_doc\<rparr>
                            (structs d)\<rparr>,
                     [], offset))
        | None \<Rightarrow>
       (case re_match re_table line of
          Some m \<Rightarrow>
            (let (body, offset) = collect_block lines i
             in Inr (d\<lparr>tables := AList.update (group m 1)
                            \<lparr>s_fields = parse_fields d body, s_doc = doc_text current_doc\<rparr>
                            (tables d)\<rparr>,
                     [], offset))
        | None \<Rightarrow>
       (case re_match re_root_type line of
          Some m \<Rightarrow> Inr (d\<lparr>root_type := Some (group m 1)\<rparr>, current_doc, i + 1)
        | None \<Rightarrow> Inr (d, current_doc, i + 1)))))))))"

text \<open>Every iteration moves the cursor forward, so the scan ends.\<close>

lemma collect_loop_ge: "i \<le> snd (collect_loop lines i depth content)"
proof (induction lines i depth content rule: collect_loop.induct)
  case (1 lines i depth content)
  show ?case
  proof (cases "i < length lines")
    case True
    define depth' where
      "depth' = depth + count (lines ! i) (CHR ''{'') - count (lines ! i) (CHR ''}'')"
    show ?thesis
    proof (cases "depth' = 0")
      case True
      with \<open>i < length lines\<close> show ?thesis
        by (subst collect_loop.simps) (simp add: Let_def depth'_def)
    next
      case False
      from "1.IH" [OF \<open>i < length lines\<close> depth'_def refl False]
      have "i + 1 \<le> snd (collect_loop lines (i + 1) depth' (content @ [lines ! i]))" .
      with False \<open>i < length lines\<close> show ?thesis
        by (subst collect_loop.simps) (simp add: Let_def depth'_def)
    qed
  next
    case False
    then show ?thesis by (subst collect_loop.simps) simp
  qed
qed

lemma collect_block_gt: "i < snd (collect_block lines i)"
proof -
  obtain c j where cj: "collect_loop lines i 0 [] = (c, j)"
    by (cases "collect_loop lines i 0 []")
  with collect_loop_ge [of i lines 0 "[]"] have "i \<le> j" by simp
  with cj show ?thesis by (simp add: collect_block_def Let_def)
qed

lemma block_comment_ge: "block_comment lines i block = Inr (j, b) \<Longrightarrow> i \<le> j"
proof (induction lines i block rule: block_comment.induct)
  case (1 lines i block)
  show ?case
  proof (cases "length lines \<le> i \<or> endswith (strip (lines ! i)) ''*/'' \<or> length lines \<le> i + 1")
    case True
    with "1.prems" show ?thesis
      by (subst (asm) block_comment.simps) (auto split: if_splits)
  next
    case False
    with "1.prems" have "block_comment lines (i + 1)
        (block @ [strip (strip_chars ''*/'' (strip_chars ''/* '' (lines ! (i + 1))))]) = Inr (j, b)"
      by (subst (asm) block_comment.simps) simp
    with False "1.IH" have "i + 1 \<le> j" by blast
    then show ?thesis by simp
  qed
qed

lemma parse_step_advances:
  assumes "parse_step lines d current_doc i = Inr (d', cd', i')"
  shows "i < i'"
proof -
  have cb: "\<And>body offset. collect_block lines i = (body, offset) \<Longrightarrow> i < offset"
    using collect_block_gt [of i lines] by simp
  from assms show ?thesis
    unfolding parse_step_def Let_def
    by (auto split: if_splits option.splits sum.splits prod.splits
        dest: block_comment_ge cb)
qed

text \<open>The \<open>while i < len(lines)\<close> loop; the result is \<open>self.data\<close> when the loop ends, or
  the exception that left it.\<close>

function parse_loop :: "string list \<Rightarrow> document \<Rightarrow> string list \<Rightarrow> nat \<Rightarrow> error + document" where
  "parse_loop lines d current_doc i =
     (if i < length lines then
        (case parse_step lines d current_doc i of
           Inl e \<Rightarrow> Inl e
         | Inr (d', current_doc', i') \<Rightarrow> parse_loop lines d' current_doc' i')
      else Inr d)"
  by pat_completeness auto
termination
  by (relation "measure (\<lambda>(lines, d, current_doc, i). length lines - i)")
     (auto dest: parse_step_advances)

declare parse_loop.simps [simp del]

text \<open>
  \<open>FBSParser(file_path)\<close>: the constructor sets \<open>self.data\<close> to the empty document and
  calls \<open>_parse_file\<close>.  The file system is a map from paths to entries; a path outside its
  domain is one for which \<open>os.path.exists\<close> is false, and an entry that exists may still fail
  to be opened or decoded.  The result is the list of log records written and either the
  exception that left the constructor or \<open>self.data\<close>.
\<close>

datatype fs_entry = File string | Unreadable

datatype log_record = Warning string

definition parse_file :: "(string \<rightharpoonup> fs_entry) \<Rightarrow> string \<Rightarrow> log_record list \<times> (error + document)" where
  "parse_file fs file_path =
     (case fs file_path of
        None \<Rightarrow> ([Warning (''FBS file not found: '' @ file_path)], Inr init_data)
      | Some Unreadable \<Rightarrow> ([], Inl ReadError)
      | Some (File content) \<Rightarrow> ([], parse_loop (splitlines content) init_data [] 0))"

text \<open>The parse of a file with the given content.\<close>

definition parse_content :: "string \<Rightarrow> error + document" where
  "parse_content content = snd (parse_file [''schema.fbs'' \<mapsto> File content] ''schema.fbs'')"

section \<open>Notions used in the statements\<close>

text \<open>The enumerator tokens of an enum body: the pieces between commas, trimmed, without
  the empty ones; these are the items the loop of \<open>_parse_enum_values\<close> processes.\<close>

definition enum_tokens :: "string \<Rightarrow> string list" where
  "enum_tokens body = filter (\<lambda>t. t \<noteq> []) (map strip (split body (CHR '','')))"

text \<open>The name under which an item is stored.\<close>

definition enumerator_name :: "string \<Rightarrow> string" where
  "enumerator_name item =
     (if CHR ''='' \<in> set item then strip (hd (split item (CHR ''=''))) else item)"

text \<open>An item with an explicit value that \<open>int\<close> rejects, or with more than one
  \<open>=\<close>.\<close>

definition explicit_value_bad :: "string \<Rightarrow> bool" where
  "explicit_value_bad item =
     (CHR ''='' \<in> set item \<and>
      (case split item (CHR ''='') of [k, v] \<Rightarrow> isl (py_int (strip v)) | _ \<Rightarrow> True))"

text \<open>Starting from \<open>depth\<close>, the brace depth is not zero after any of the lines: the
  end of the lines is reached before the block closes.\<close>

fun depth_never_zero :: "int \<Rightarrow> string list \<Rightarrow> bool" where
  "depth_never_zero depth [] = True"
| "depth_never_zero depth (l # ls) =
     (let depth' = depth + count l (CHR ''{'') - count l (CHR ''}'')
      in depth' \<noteq> 0 \<and> depth_never_zero depth' ls)"

text \<open>Lines of the top-level scan: comment lines, and lines that open an enum, union,
  struct or table.\<close>

definition comment_line :: "string \<Rightarrow> bool" where
  "comment_line line = (startswith line ''///'' \<or> startswith line ''/*'')"

definition declaration_line :: "string \<Rightarrow> bool" where
  "declaration_line line =
     (re_match re_enum line \<noteq> None \<or> re_match re_union line \<noteq> None \<or>
      re_match re_struct line \<noteq> None \<or> re_match re_table line \<noteq> None)"

section \<open>Missing files\<close>

text \<open>
  Claim C4.  For every file path that does not exist, the parser returns the empty document
  (namespace unset, attributes empty, every category map empty, root type unset), writes one
  warning to the log, and raises nothing.
\<close>

theorem missing_file_empty_document:
  assumes "fs file_path = None"
  shows "parse_file fs file_path =
    ([Warning (''FBS file not found: '' @ file_path)],
     Inr \<lparr>namespace = None, attributes = [], enums = [], unions = [], structs = [],
          tables = [], root_type = None\<rparr>)"
  using assms by (simp add: parse_file_def init_data_def)

theorem missing_file_empty_document_witness:
  "[''present.fbs'' \<mapsto> File ''namespace a.b;''] ''absent.fbs'' = None \<and>
   parse_file [''present.fbs'' \<mapsto> File ''namespace a.b;''] ''absent.fbs'' =
    ([Warning ''FBS file not found: absent.fbs''],
     Inr \<lparr>namespace = None, attributes = [], enums = [], unions = [], structs = [],
          tables = [], root_type = None\<rparr>)"
  using missing_file_empty_document
    [of "[''present.fbs'' \<mapsto> File ''namespace a.b;'']" "''absent.fbs''"]
  by simp

section \<open>Block comments that are never closed\<close>

lemma block_comment_unclosed:
  assumes "list_all (\<lambda>l. \<not> endswith (strip l) ''*/'') (drop i lines)"
  shows "block_comment lines i block = Inl IndexError"
  using assms
proof (induction lines i block rule: block_comment.induct)
  case (1 lines i block)
  show ?case
  proof (cases "length lines \<le> i")
    case True
    then show ?thesis by (subst block_comment.simps) simp
  next
    case False
    then have i: "i < length lines" by simp
    then have d: "drop i lines = lines ! i # drop (i + 1) lines"
      by (simp add: Cons_nth_drop_Suc)
    with "1.prems" have here: "\<not> endswith (strip (lines ! i)) ''*/''"
      and rest: "list_all (\<lambda>l. \<not> endswith (strip l) ''*/'') (drop (i + 1) lines)"
      by simp_all
    show ?thesis
    proof (cases "length lines \<le> i + 1")
      case True
      with i here show ?thesis by (subst block_comment.simps) simp
    next
      case False
      with "1.IH" i here rest
      have "block_comment lines (i + 1)
        (block @ [strip (strip_chars ''*/'' (strip_chars ''/* '' (lines ! (i + 1))))])
          = Inl IndexError"
        by simp
      with False i here show ?thesis by (subst block_comment.simps) simp
    qed
  qed
qed

lemma startswith_comment_not_doc:
  "startswith line ''/*'' \<Longrightarrow> \<not> startswith line ''///''"
  by (cases line; cases "tl line") (auto simp: startswith_def)

text \<open>
  Claim C10.  When the scan reaches a line that opens a block comment and neither that line
  nor any later line ends (after trimming) with the closing marker, the search for the
  closing marker reads past the last line: the parse ends with an \<open>IndexError\<close>, not with a
  document.  The witness is a file whose last two lines are such a comment.
\<close>

theorem unclosed_block_comment_raises:
  assumes "i < length lines"
    and "startswith (strip (lines ! i)) ''/*''"
    and "list_all (\<lambda>l. \<not> endswith (strip l) ''*/'') (drop i lines)"
  shows "parse_loop lines d current_doc i = Inl IndexError"
proof -
  from assms(2) have "\<not> startswith (strip (lines ! i)) ''///''"
    by (rule startswith_comment_not_doc)
  with assms(2) block_comment_unclosed [OF assms(3)]
  have "parse_step lines d current_doc i = Inl IndexError"
    by (simp add: parse_step_def Let_def)
  with assms(1) show ?thesis
    by (subst parse_loop.simps) simp
qed

theorem unclosed_block_comment_raises_witness:
  "1 < length [''namespace a.b;'', ''/* never closed'', ''table T {''] \<and>
   startswith (strip ([''namespace a.b;'', ''/* never closed'', ''table T {''] ! 1)) ''/*'' \<and>
   list_all (\<lambda>l. \<not> endswith (strip l) ''*/'')
     (drop 1 [''namespace a.b;'', ''/* never closed'', ''table T {'']) \<and>
   parse_file [''schema.fbs'' \<mapsto> File ''namespace a.b;\<newline>/* never closed\<newline>table T {'']
     ''schema.fbs'' = ([], Inl IndexError)"
proof -
  let ?lines = "[''namespace a.b;'', ''/* never closed'', ''table T {'']"
  let ?d = "init_data\<lparr>namespace := Some ''a.b''\<rparr>"
  have sl: "splitlines ''namespace a.b;\<newline>/* never closed\<newline>table T {'' = ?lines"
    by code_simp
  have h1: "1 < length ?lines" by simp
  have h2: "startswith (strip (?lines ! 1)) ''/*''" by code_simp
  have h3: "list_all (\<lambda>l. \<not> endswith (strip l) ''*/'') (drop 1 ?lines)" by code_simp
  have step0: "parse_step ?lines init_data [] 0 = Inr (?d, [], 1)" by code_simp
  have "parse_loop ?lines init_data [] 0 = parse_loop ?lines ?d [] 1"
    by (subst parse_loop.simps) (simp add: step0)
  also have "\<dots> = Inl IndexError"
    using unclosed_block_comment_raises [OF h1 h2 h3] .
  finally have "parse_file [''schema.fbs'' \<mapsto> File ''namespace a.b;\<newline>/* never closed\<newline>table T {'']
     ''schema.fbs'' = ([], Inl IndexError)"
    by (simp add: parse_file_def sl)
  with h1 h2 h3 show ?thesis by blast
qed

section \<open>References to local types\<close>

text \<open>
  Claim C1 (evaluation at the failing input).  The claim asks that a field whose type names
  a table declared later in the same file gets that name as its ref.  For the file
  \<^verbatim>\<open>table T1 { a: T2; }\<close>, \<^verbatim>\<open>table T2 { x:int; }\<close> the parser leaves the ref of \<open>a\<close>
  unset, because \<open>local_types\<close> holds only the names stored before the body of \<open>T1\<close> is
  parsed.
\<close>

theorem forward_reference_unresolved:
  "parse_content ''table T1 { a: T2; }\<newline>table T2 { x:int; }\<newline>'' =
   Inr \<lparr>namespace = None, attributes = [], enums = [], unions = [], structs = [],
        tables =
          [(''T1'', \<lparr>s_fields = [(''a'', \<lparr>f_type = ''T2'', f_default = None,
                       f_metadata = None, f_doc = None, f_ref = None\<rparr>)], s_doc = None\<rparr>),
           (''T2'', \<lparr>s_fields = [(''x'', \<lparr>f_type = ''int'', f_default = None,
                       f_metadata = None, f_doc = None, f_ref = None\<rparr>)], s_doc = None\<rparr>)],
        root_type = None\<rparr>"
  by code_simp

text \<open>
  Claim C5 (evaluation at the failing input).  The stored type of a vector field keeps its
  brackets, and \<open>xs:[int];\<close> has no ref; but the ref is looked up with the brackets still
  on, so \<open>xs:[Bar];\<close> has no ref either although \<open>Bar\<close> is a table declared before, while
  the plain field \<open>b:Bar;\<close> of the same table has.
\<close>

theorem vector_reference_unresolved:
  "parse_content
     ''table Bar { x:int; }\<newline>table Foo {\<newline>  xs:[Bar];\<newline>  ys:[int];\<newline>  b:Bar;\<newline>}\<newline>'' =
   Inr \<lparr>namespace = None, attributes = [], enums = [], unions = [], structs = [],
        tables =
          [(''Bar'', \<lparr>s_fields = [(''x'', \<lparr>f_type = ''int'', f_default = None,
                       f_metadata = None, f_doc = None, f_ref = None\<rparr>)], s_doc = None\<rparr>),
           (''Foo'', \<lparr>s_fields =
              [(''xs'', \<lparr>f_type = ''[Bar]'', f_default = None,
                       f_metadata = None, f_doc = None, f_ref = None\<rparr>),
               (''ys'', \<lparr>f_type = ''[int]'', f_default = None,
                       f_metadata = None, f_doc = None, f_ref = None\<rparr>),
               (''b'', \<lparr>f_type = ''Bar'', f_default = None,
                       f_metadata = None, f_doc = None, f_ref = Some ''Bar''\<rparr>)],
              s_doc = None\<rparr>)],
        root_type = None\<rparr>"
  by code_simp

text \<open>
  Claim C7 (evaluation at the failing input).  The set of builtin type names is never
  consulted: when an enum is declared under the name \<open>int\<close>, a later field of type \<open>int\<close>
  gets the ref \<open>int\<close>.
\<close>

theorem builtin_name_resolved:
  "parse_content ''enum int : byte { A }\<newline>table T {\<newline>  x:int;\<newline>}\<newline>'' =
   Inr \<lparr>namespace = None, attributes = [],
        enums = [(''int'', \<lparr>e_base_type = ''byte'', e_values = [(''A'', None)],
                   e_doc = None\<rparr>)],
        unions = [], structs = [],
        tables =
          [(''T'', \<lparr>s_fields = [(''x'', \<lparr>f_type = ''int'', f_default = None,
                       f_metadata = None, f_doc = None, f_ref = Some ''int''\<rparr>)],
              s_doc = None\<rparr>)],
        root_type = None\<rparr>"
  by code_simp

section \<open>Field metadata\<close>

text \<open>
  Claim C8 (evaluation at the failing input).  With a default clause the metadata is the
  text between the parentheses: \<open>id:int = 7 (deprecated);\<close> has default \<open>7\<close> and metadata
  \<open>deprecated\<close>.  Without a default clause the metadata group begins with the space before
  the parenthesis, \<open>strip("()")\<close> removes nothing on the left, and \<open>old:int (deprecated);\<close>
  has the metadata \<open> (deprecated\<close>, with the space and the opening parenthesis.
\<close>

theorem metadata_without_default:
  "parse_content
     ''table T {\<newline>  id:int = 7 (deprecated);\<newline>  old:int (deprecated);\<newline>}\<newline>'' =
   Inr \<lparr>namespace = None, attributes = [], enums = [], unions = [], structs = [],
        tables =
          [(''T'', \<lparr>s_fields =
              [(''id'', \<lparr>f_type = ''int'', f_default = Some ''7'',
                       f_metadata = Some ''deprecated'', f_doc = None, f_ref = None\<rparr>),
               (''old'', \<lparr>f_type = ''int'', f_default = None,
                       f_metadata = Some '' (deprecated'', f_doc = None, f_ref = None\<rparr>)],
              s_doc = None\<rparr>)],
        root_type = None\<rparr>"
  by code_simp

section \<open>Enumerator values\<close>

lemma enum_items_Cons_cases:
  assumes "enum_items (raw # rest) acc = Inr values"
  shows "(strip raw = [] \<and> enum_items rest acc = Inr values) \<or>
    (strip raw \<noteq> [] \<and> CHR ''='' \<notin> set (strip raw) \<and>
       enum_items rest (AList.update (strip raw) None acc) = Inr values) \<or>
    (strip raw \<noteq> [] \<and> CHR ''='' \<in> set (strip raw) \<and>
       (\<exists>k v n. split (strip raw) (CHR ''='') = [k, v] \<and> py_int (strip v) = Inr n \<and>
          enum_items rest (AList.update (strip k) (Some n) acc) = Inr values))"
  using assms by (auto simp: Let_def split: if_splits list.splits sum.splits)

lemma enum_items_untouched:
  assumes "enum_items raws acc = Inr values"
    and "k \<notin> set (map enumerator_name (filter (\<lambda>t. t \<noteq> []) (map strip raws)))"
  shows "map_of values k = map_of acc k"
  using assms
proof (induction raws arbitrary: acc)
  case Nil
  then show ?case by simp
next
  case (Cons raw rest)
  from enum_items_Cons_cases [OF Cons.prems(1)]
  consider (empty) "strip raw = []" "enum_items rest acc = Inr values"
    | (plain) "strip raw \<noteq> []" "CHR ''='' \<notin> set (strip raw)"
        "enum_items rest (AList.update (strip raw) None acc) = Inr values"
    | (explicit) k' v n where "strip raw \<noteq> []" "CHR ''='' \<in> set (strip raw)"
        "split (strip raw) (CHR ''='') = [k', v]" "py_int (strip v) = Inr n"
        "enum_items rest (AList.update (strip k') (Some n) acc) = Inr values"
    by blast
  then show ?case
  proof cases
    case empty
    with Cons show ?thesis by simp
  next
    case plain
    with Cons.prems(2) have ne: "k \<noteq> strip raw"
      and rest: "k \<notin> set (map enumerator_name (filter (\<lambda>t. t \<noteq> []) (map strip rest)))"
      by (auto simp: enumerator_name_def)
    from Cons.IH [OF plain(3) rest] ne show ?thesis by (simp add: update_conv')
  next
    case explicit
    with Cons.prems(2) have ne: "k \<noteq> strip k'"
      and rest: "k \<notin> set (map enumerator_name (filter (\<lambda>t. t \<noteq> []) (map strip rest)))"
      by (auto simp: enumerator_name_def)
    from Cons.IH [OF explicit(5) rest] ne show ?thesis by (simp add: update_conv')
  qed
qed

lemma enum_items_entry:
  assumes "enum_items raws acc = Inr values"
    and "items = filter (\<lambda>t. t \<noteq> []) (map strip raws)"
    and "j < length items"
    and "enumerator_name (items ! j) \<notin> set (map enumerator_name (drop (Suc j) items))"
  shows "(CHR ''='' \<notin> set (items ! j) \<longrightarrow> map_of values (items ! j) = Some None) \<and>
         (CHR ''='' \<in> set (items ! j) \<longrightarrow>
            (\<exists>k v n. split (items ! j) (CHR ''='') = [k, v] \<and> py_int (strip v) = Inr n \<and>
                map_of values (strip k) = Some (Some n)))"
  using assms
proof (induction raws arbitrary: acc items j)
  case Nil
  then show ?case by simp
next
  case (Cons raw rest)
  let ?rest = "filter (\<lambda>t. t \<noteq> []) (map strip rest)"
  from enum_items_Cons_cases [OF Cons.prems(1)]
  consider (empty) "strip raw = []" "enum_items rest acc = Inr values"
    | (plain) "strip raw \<noteq> []" "CHR ''='' \<notin> set (strip raw)"
        "enum_items rest (AList.update (strip raw) None acc) = Inr values"
    | (explicit) k' v n where "strip raw \<noteq> []" "CHR ''='' \<in> set (strip raw)"
        "split (strip raw) (CHR ''='') = [k', v]" "py_int (strip v) = Inr n"
        "enum_items rest (AList.update (strip k') (Some n) acc) = Inr values"
    by blast
  then show ?case
  proof cases
    case empty
    with Cons.prems have "items = ?rest" by simp
    from Cons.IH [OF empty(2) this Cons.prems(3,4)] show ?thesis .
  next
    case plain
    with Cons.prems(2) have items: "items = strip raw # ?rest" by simp
    show ?thesis
    proof (cases j)
      case 0
      with items Cons.prems(4)
      have "strip raw \<notin> set (map enumerator_name ?rest)"
        using plain(2) by (simp add: enumerator_name_def)
      from enum_items_untouched [OF plain(3) this]
      have "map_of values (strip raw) = Some None" by (simp add: update_conv')
      with 0 items plain(2) show ?thesis by simp
    next
      case (Suc j')
      with items Cons.prems(3,4) have "j' < length ?rest"
        and "enumerator_name (?rest ! j') \<notin> set (map enumerator_name (drop (Suc j') ?rest))"
        by simp_all
      from Cons.IH [OF plain(3) refl this] Suc items show ?thesis by auto
    qed
  next
    case explicit
    with Cons.prems(2) have items: "items = strip raw # ?rest" by simp
    have name: "enumerator_name (strip raw) = strip k'"
      using explicit(2,3) by (simp add: enumerator_name_def)
    show ?thesis
    proof (cases j)
      case 0
      with items Cons.prems(4) name
      have "strip k' \<notin> set (map enumerator_name ?rest)" by simp
      from enum_items_untouched [OF explicit(5) this]
      have "map_of values (strip k') = Some (Some n)" by (simp add: update_conv')
      with 0 items explicit(2,3,4) show ?thesis by simp
    next
      case (Suc j')
      with items Cons.prems(3,4) have "j' < length ?rest"
        and "enumerator_name (?rest ! j') \<notin> set (map enumerator_name (drop (Suc j') ?rest))"
        by simp_all
      from Cons.IH [OF explicit(5) refl this] Suc items show ?thesis by auto
    qed
  qed
qed

text \<open>
  Claim C2, as the code has it.  In a parsed enum an enumerator written \<open>name = n\<close> stores
  the integer \<open>n\<close>, and every other enumerator stores the null placeholder \<open>None\<close>: no
  value is computed from the previous enumerator.  (When a name occurs more than once, the
  last occurrence decides; the statement is about an item whose name does not occur again
  after it.)
\<close>

theorem enum_values_explicit_or_null:
  assumes "parse_enum_values body = Inr values"
    and "j < length (enum_tokens body)"
    and "enumerator_name (enum_tokens body ! j)
           \<notin> set (map enumerator_name (drop (Suc j) (enum_tokens body)))"
  shows "(CHR ''='' \<notin> set (enum_tokens body ! j) \<longrightarrow>
            map_of values (enum_tokens body ! j) = Some None) \<and>
         (CHR ''='' \<in> set (enum_tokens body ! j) \<longrightarrow>
            (\<exists>k v n. split (enum_tokens body ! j) (CHR ''='') = [k, v] \<and>
                py_int (strip v) = Inr n \<and> map_of values (strip k) = Some (Some n)))"
  using enum_items_entry [OF assms(1) [unfolded parse_enum_values_def] refl
      assms(2,3) [unfolded enum_tokens_def]]
  unfolding enum_tokens_def by blast

theorem enum_values_explicit_or_null_witness:
  "parse_enum_values ''A, B = 5, C'' = Inr [(''A'', None), (''B'', Some 5), (''C'', None)] \<and>
   enum_tokens ''A, B = 5, C'' = [''A'', ''B = 5'', ''C''] \<and>
   map_of [(''A'', None), (''B'', Some (5::int)), (''C'', None)] ''A'' = Some None \<and>
   map_of [(''A'', None), (''B'', Some (5::int)), (''C'', None)] ''B'' = Some (Some 5)"
proof -
  let ?vs = "[(''A'', None), (''B'', Some (5::int)), (''C'', None)]"
  have p: "parse_enum_values ''A, B = 5, C'' = Inr ?vs" by code_simp
  have t: "enum_tokens ''A, B = 5, C'' = [''A'', ''B = 5'', ''C'']" by code_simp
  have a2: "0 < length (enum_tokens ''A, B = 5, C'')" by code_simp
  have a3: "enumerator_name (enum_tokens ''A, B = 5, C'' ! 0)
      \<notin> set (map enumerator_name (drop (Suc 0) (enum_tokens ''A, B = 5, C'')))"
    by code_simp
  have b2: "1 < length (enum_tokens ''A, B = 5, C'')" by code_simp
  have b3: "enumerator_name (enum_tokens ''A, B = 5, C'' ! 1)
      \<notin> set (map enumerator_name (drop (Suc 1) (enum_tokens ''A, B = 5, C'')))"
    by code_simp
  have a4: "CHR ''='' \<notin> set ''A''" by simp
  have b4: "CHR ''='' \<in> set ''B = 5''" by simp
  have b5: "split ''B = 5'' (CHR ''='') = [''B '', '' 5'']" by code_simp
  have b6: "strip ''B '' = ''B''" by code_simp
  from enum_values_explicit_or_null [OF p a2 a3] a4
  have ra: "map_of ?vs ''A'' = Some None" by (simp add: t)
  from enum_values_explicit_or_null [OF p b2 b3] b4
  have "\<exists>k v n. split ''B = 5'' (CHR ''='') = [k, v] \<and> py_int (strip v) = Inr n \<and>
          map_of ?vs (strip k) = Some (Some n)"
    by (simp add: t)
  then have rb: "map_of ?vs ''B'' = Some (Some 5)"
    by (simp add: b5 b6)
  from p t ra rb show ?thesis by blast
qed

text \<open>Claim C2 as stated fails: for \<^verbatim>\<open>enum E : int { A, B = 5, C }\<close> the stored values of
  \<open>A\<close> and \<open>C\<close> are \<open>None\<close>, not 0 and 6.\<close>

theorem enum_values_null_placeholder:
  "parse_content ''enum E : int { A, B = 5, C }'' =
   Inr \<lparr>namespace = None, attributes = [],
        enums = [(''E'', \<lparr>e_base_type = ''int'',
                   e_values = [(''A'', None), (''B'', Some 5), (''C'', None)],
                   e_doc = None\<rparr>)],
        unions = [], structs = [], tables = [], root_type = None\<rparr>"
  by code_simp

section \<open>Lines of the top-level scan\<close>

lemma startswith_append: "startswith s p \<longleftrightarrow> (\<exists>r. s = p @ r)"
  unfolding startswith_def
  by (metis append_eq_conv_conj append_take_drop_id)

lemma re_enum_prefix: "re_match re_enum s = Some m \<Longrightarrow> startswith s ''enum''"
  by (simp add: re_match_def re_enum_def split: if_splits)

lemma re_union_prefix: "re_match re_union s = Some m \<Longrightarrow> startswith s ''union''"
  by (simp add: re_match_def re_union_def split: if_splits)

lemma re_struct_prefix: "re_match re_struct s = Some m \<Longrightarrow> startswith s ''struct''"
  by (simp add: re_match_def re_struct_def split: if_splits)

lemma re_table_prefix: "re_match re_table s = Some m \<Longrightarrow> startswith s ''table''"
  by (simp add: re_match_def re_table_def split: if_splits)

lemma re_namespace_prefix: "\<not> startswith s ''namespace'' \<Longrightarrow> re_match re_namespace s = None"
  by (simp add: re_match_def re_namespace_def)

lemma re_attribute_prefix: "\<not> startswith s ''attribute'' \<Longrightarrow> re_match re_attribute s = None"
  by (simp add: re_match_def re_attribute_def)

lemma re_enum_no_prefix: "\<not> startswith s ''enum'' \<Longrightarrow> re_match re_enum s = None"
  by (simp add: re_match_def re_enum_def)

lemma re_union_no_prefix: "\<not> startswith s ''union'' \<Longrightarrow> re_match re_union s = None"
  by (simp add: re_match_def re_union_def)

lemma re_struct_no_prefix: "\<not> startswith s ''struct'' \<Longrightarrow> re_match re_struct s = None"
  by (simp add: re_match_def re_struct_def)

lemma enum_line_only:
  assumes "startswith s ''enum''"
  shows "\<not> startswith s ''///''" "\<not> startswith s ''/*''"
    "re_match re_namespace s = None" "re_match re_attribute s = None"
  using assms
  by (auto simp: startswith_append intro!: re_namespace_prefix re_attribute_prefix)

lemma union_line_only:
  assumes "startswith s ''union''"
  shows "\<not> startswith s ''///''" "\<not> startswith s ''/*''"
    "re_match re_namespace s = None" "re_match re_attribute s = None"
    "re_match re_enum s = None"
  using assms
  by (auto simp: startswith_append
      intro!: re_namespace_prefix re_attribute_prefix re_enum_no_prefix)

lemma struct_line_only:
  assumes "startswith s ''struct''"
  shows "\<not> startswith s ''///''" "\<not> startswith s ''/*''"
    "re_match re_namespace s = None" "re_match re_attribute s = None"
    "re_match re_enum s = None" "re_match re_union s = None"
  using assms
  by (auto simp: startswith_append
      intro!: re_namespace_prefix re_attribute_prefix re_enum_no_prefix re_union_no_prefix)

lemma table_line_only:
  assumes "startswith s ''table''"
  shows "\<not> startswith s ''///''" "\<not> startswith s ''/*''"
    "re_match re_namespace s = None" "re_match re_attribute s = None"
    "re_match re_enum s = None" "re_match re_union s = None" "re_match re_struct s = None"
  using assms
  by (auto simp: startswith_append
      intro!: re_namespace_prefix re_attribute_prefix re_enum_no_prefix re_union_no_prefix
        re_struct_no_prefix)

lemma parse_step_enum:
  assumes "re_match re_enum (strip (lines ! i)) = Some m"
  shows "parse_step lines d current_doc i =
    (case parse_enum_values (fst (collect_block lines i)) of
       Inl e \<Rightarrow> Inl e
     | Inr vs \<Rightarrow>
         Inr (d\<lparr>enums := AList.update (group m 1)
                   \<lparr>e_base_type = group m 2, e_values = vs, e_doc = doc_text current_doc\<rparr>
                   (enums d)\<rparr>,
              [], snd (collect_block lines i)))"
  using assms enum_line_only [OF re_enum_prefix [OF assms]]
  by (simp add: parse_step_def Let_def case_prod_unfold)

lemma parse_step_union:
  assumes "re_match re_union (strip (lines ! i)) = Some m"
  shows "parse_step lines d current_doc i =
    Inr (d\<lparr>unions := AList.update (group m 1)
              \<lparr>u_types = filter (\<lambda>t. t \<noteq> [])
                   (map strip (split (fst (collect_block lines i)) (CHR '','')))  ,
               u_doc = doc_text current_doc\<rparr> (unions d)\<rparr>,
         [], snd (collect_block lines i))"
  using assms union_line_only [OF re_union_prefix [OF assms]]
  by (simp add: parse_step_def Let_def case_prod_unfold)

lemma parse_step_struct:
  assumes "re_match re_struct (strip (lines ! i)) = Some m"
  shows "parse_step lines d current_doc i =
    Inr (d\<lparr>structs := AList.update (group m 1)
              \<lparr>s_fields = parse_fields d (fst (collect_block lines i)),
               s_doc = doc_text current_doc\<rparr> (structs d)\<rparr>,
         [], snd (collect_block lines i))"
  using assms struct_line_only [OF re_struct_prefix [OF assms]]
  by (simp add: parse_step_def Let_def case_prod_unfold)

lemma parse_step_table:
  assumes "re_match re_table (strip (lines ! i)) = Some m"
  shows "parse_step lines d current_doc i =
    Inr (d\<lparr>tables := AList.update (group m 1)
              \<lparr>s_fields = parse_fields d (fst (collect_block lines i)),
               s_doc = doc_text current_doc\<rparr> (tables d)\<rparr>,
         [], snd (collect_block lines i))"
  using assms table_line_only [OF re_table_prefix [OF assms]]
  by (simp add: parse_step_def Let_def case_prod_unfold)

lemma parse_step_other:
  assumes "\<not> comment_line (strip (lines ! i))" "\<not> declaration_line (strip (lines ! i))"
    and "parse_step lines d current_doc i = Inr (d', current_doc', i')"
  shows "current_doc' = current_doc \<and> enums d' = enums d \<and> unions d' = unions d \<and>
         structs d' = structs d \<and> tables d' = tables d"
  using assms
  by (auto simp: parse_step_def Let_def comment_line_def declaration_line_def
      split: option.splits)


section \<open>Enumerator values that are not integers\<close>

lemma int_unsigned_error:
  assumes "int_unsigned s u = Inl e"
  shows "e = ValueError_int s \<or> (\<exists>n. int_max_str_digits < n \<and> e = ValueError_digits n)"
  using assms by (auto simp: int_unsigned_def split: if_splits scan.splits)

lemma py_int_error:
  assumes "py_int s = Inl e"
  shows "e = ValueError_int s \<or> (\<exists>n. int_max_str_digits < n \<and> e = ValueError_digits n)"
  using assms
  by (auto simp: py_int_def split: list.splits if_splits sum.splits dest: int_unsigned_error)

text \<open>A literal of more than 4300 digits is refused, whatever its digits are.\<close>

lemma int_scan_digits:
  assumes "list_all is_digit ds" and "ds \<noteq> [] \<or> \<not> b"
  shows "\<exists>v. int_scan n acc b ds = Scanned (n + length ds) v []"
  using assms
proof (induction ds arbitrary: n acc b)
  case Nil
  then show ?case by simp
next
  case (Cons c cs)
  then have c: "is_digit c" and cs: "list_all is_digit cs" by simp_all
  from Cons.IH [OF cs, of False "Suc n" "acc * 10 + (int (ord c) - 48)"]
  obtain v where "int_scan (Suc n) (acc * 10 + (int (ord c) - 48)) False cs
      = Scanned (Suc n + length cs) v []"
    by auto
  with c show ?case by simp
qed

lemma digit_not_special:
  assumes "is_digit c"
  shows "\<not> is_int_space c" "c \<noteq> CHR ''+''" "c \<noteq> CHR ''-''" "c \<noteq> CHR ''_''"
  using assms by (auto simp: is_digit_def is_int_space_def ord_def Let_def)

lemma py_int_too_many_digits:
  assumes "list_all is_digit s" and "int_max_str_digits < length s"
  shows "py_int s = Inl (ValueError_digits (length s))"
proof -
  from assms(2) obtain c cs where s: "s = c # cs" by (cases s) auto
  with assms(1) have c: "is_digit c" by simp
  from int_scan_digits [OF assms(1), of False 0 0] s
  obtain v where v: "int_scan 0 0 False s = Scanned (length s) v []" by auto
  from digit_not_special [OF c] s have "dropWhile is_int_space s = c # cs" by simp
  with digit_not_special [OF c] s v assms(2) show ?thesis
    by (simp add: py_int_def int_unsigned_def startswith_def)
qed

lemma length_split_acc:
  "length (split_acc sep cur s) = Suc (length (filter (\<lambda>x. x = sep) s))"
  by (induction s arbitrary: cur) auto

lemma split_pair_iff: "(\<exists>k v. split s sep = [k, v]) \<longleftrightarrow> count s sep = 1"
proof -
  have "(\<exists>k v. split s sep = [k, v]) \<longleftrightarrow> length (split s sep) = 2"
    by (auto simp: length_Suc_conv numeral_2_eq_2)
  then show ?thesis by (auto simp: split_def count_def length_split_acc)
qed

lemma count_member: "c \<in> set s \<Longrightarrow> 1 \<le> count s c"
proof -
  assume "c \<in> set s"
  then have "filter (\<lambda>x. x = c) s \<noteq> []" by (auto simp: filter_empty_conv)
  then have "0 < length (filter (\<lambda>x. x = c) s)"
    by (cases "filter (\<lambda>x. x = c) s") simp_all
  then show ?thesis unfolding count_def by linarith
qed

lemma bad_item_raises:
  assumes "strip raw \<noteq> []" and "explicit_value_bad (strip raw)"
  shows "\<exists>e. enum_items (raw # rest) acc = Inl e \<and>
           (if count (strip raw) (CHR ''='') = 1
            then \<exists>k v. split (strip raw) (CHR ''='') = [k, v] \<and> py_int (strip v) = Inl e \<and>
                   (e = ValueError_int (strip v) \<or>
                    (\<exists>n. int_max_str_digits < n \<and> e = ValueError_digits n))
            else 1 < count (strip raw) (CHR ''='') \<and> e = ValueError_unpack)"
proof (cases "count (strip raw) (CHR ''='') = 1")
  case True
  then obtain k v where kv: "split (strip raw) (CHR ''='') = [k, v]"
    using split_pair_iff [of "strip raw" "CHR ''=''"] by blast
  with assms(2) obtain e where e: "py_int (strip v) = Inl e"
    by (cases "py_int (strip v)") (auto simp: explicit_value_bad_def)
  from assms kv e have "enum_items (raw # rest) acc = Inl e"
    by (simp add: Let_def explicit_value_bad_def)
  with True kv e py_int_error [OF e] show ?thesis by auto
next
  case False
  from assms(2) have mem: "CHR ''='' \<in> set (strip raw)"
    by (simp add: explicit_value_bad_def)
  from count_member [OF mem] False have more: "1 < count (strip raw) (CHR ''='')" by simp
  from False have "\<not> (\<exists>k v. split (strip raw) (CHR ''='') = [k, v])"
    by (simp add: split_pair_iff)
  with assms(1) mem have "enum_items (raw # rest) acc = Inl ValueError_unpack"
    by (auto simp: Let_def split: list.splits)
  with False more show ?thesis by simp
qed

lemma good_item_continues:
  assumes "\<not> explicit_value_bad (strip raw)"
  shows "\<exists>acc'. enum_items (raw # rest) acc = enum_items rest acc'"
  using assms
  by (auto simp: explicit_value_bad_def Let_def split: list.splits sum.splits)

lemma enum_items_first_bad:
  assumes "items = filter (\<lambda>t. t \<noteq> []) (map strip raws)"
    and "j < length items"
    and "explicit_value_bad (items ! j)"
    and "\<not> list_ex explicit_value_bad (take j items)"
  shows "\<exists>e. enum_items raws acc = Inl e \<and>
           (if count (items ! j) (CHR ''='') = 1
            then \<exists>k v. split (items ! j) (CHR ''='') = [k, v] \<and> py_int (strip v) = Inl e \<and>
                   (e = ValueError_int (strip v) \<or>
                    (\<exists>n. int_max_str_digits < n \<and> e = ValueError_digits n))
            else 1 < count (items ! j) (CHR ''='') \<and> e = ValueError_unpack)"
  using assms
proof (induction raws arbitrary: acc j items)
  case Nil
  then show ?case by simp
next
  case (Cons raw rest)
  let ?rest = "filter (\<lambda>t. t \<noteq> []) (map strip rest)"
  show ?case
  proof (cases "strip raw = []")
    case True
    with Cons.prems(1) have items: "items = ?rest" by simp
    from True have eq: "enum_items (raw # rest) acc = enum_items rest acc" by simp
    from Cons.IH [OF items Cons.prems(2,3,4), of acc] show ?thesis
      unfolding eq .
  next
    case False
    with Cons.prems(1) have items: "items = strip raw # ?rest" by simp
    show ?thesis
    proof (cases j)
      case 0
      with items Cons.prems(3) have "explicit_value_bad (strip raw)" by simp
      moreover from 0 items have ij: "items ! j = strip raw" by simp
      ultimately show ?thesis
        unfolding ij by (intro bad_item_raises [OF False])
    next
      case (Suc j')
      with items Cons.prems(2,3,4) have j': "j' < length ?rest"
        and bad: "explicit_value_bad (?rest ! j')"
        and good: "\<not> explicit_value_bad (strip raw)"
        and before: "\<not> list_ex explicit_value_bad (take j' ?rest)"
        by simp_all
      from good_item_continues [OF good, of rest acc]
      obtain acc' where eq: "enum_items (raw # rest) acc = enum_items rest acc'" by blast
      from Suc items have ij: "items ! j = ?rest ! j'" by simp
      from Cons.IH [OF refl j' bad before, of acc'] show ?thesis
        unfolding ij eq .
    qed
  qed
qed

lemma first_bad_index:
  "list_ex P xs \<Longrightarrow> \<exists>j. j < length xs \<and> P (xs ! j) \<and> \<not> list_ex P (take j xs)"
proof (induction xs)
  case Nil
  then show ?case by simp
next
  case (Cons x xs)
  show ?case
  proof (cases "P x")
    case True
    then have "0 < length (x # xs) \<and> P ((x # xs) ! 0) \<and> \<not> list_ex P (take 0 (x # xs))"
      by simp
    then show ?thesis by blast
  next
    case False
    with Cons obtain j where "j < length xs" "P (xs ! j)" "\<not> list_ex P (take j xs)"
      by auto
    with False have "Suc j < length (x # xs) \<and> P ((x # xs) ! Suc j) \<and>
        \<not> list_ex P (take (Suc j) (x # xs))"
      by simp
    then show ?thesis by blast
  qed
qed

text \<open>
  Claim C9, as the code has it.  When the scan reaches an enum whose body holds an item with
  an explicit value that \<open>int\<close> does not accept (or with more than one \<open>=\<close>), the parse of the
  file ends with the \<open>ValueError\<close> of the first such item and no document is returned.  That
  error is: for an item with one \<open>=\<close>, the error \<open>int\<close> raises for the text after the \<open>=\<close>,
  which carries that text (invalid literal) or the number of its digits (more than 4300
  digits) and nothing else; for an item with more than one \<open>=\<close>, the error of the unpacking,
  which carries nothing.  It names neither the enum nor the enumerator.
\<close>

theorem enum_value_format_aborts:
  assumes "i < length lines"
    and "re_match re_enum (strip (lines ! i)) \<noteq> None"
    and "tokens = enum_tokens (fst (collect_block lines i))"
    and "list_ex explicit_value_bad tokens"
  shows "\<exists>j e. j < length tokens \<and> explicit_value_bad (tokens ! j) \<and>
           \<not> list_ex explicit_value_bad (take j tokens) \<and>
           parse_loop lines d current_doc i = Inl e \<and>
           (if count (tokens ! j) (CHR ''='') = 1
            then \<exists>k v. split (tokens ! j) (CHR ''='') = [k, v] \<and> py_int (strip v) = Inl e \<and>
                   (e = ValueError_int (strip v) \<or>
                    (\<exists>n. int_max_str_digits < n \<and> e = ValueError_digits n))
            else 1 < count (tokens ! j) (CHR ''='') \<and> e = ValueError_unpack)"
proof -
  from assms(2) obtain m where m: "re_match re_enum (strip (lines ! i)) = Some m" by blast
  from first_bad_index [OF assms(4)] obtain j where j: "j < length tokens"
    and bad: "explicit_value_bad (tokens ! j)"
    and before: "\<not> list_ex explicit_value_bad (take j tokens)"
    by blast
  from enum_items_first_bad [OF assms(3) [unfolded enum_tokens_def] j bad before, of "[]"]
  obtain e where e: "parse_enum_values (fst (collect_block lines i)) = Inl e"
    and sh: "(if count (tokens ! j) (CHR ''='') = 1
            then \<exists>k v. split (tokens ! j) (CHR ''='') = [k, v] \<and> py_int (strip v) = Inl e \<and>
                   (e = ValueError_int (strip v) \<or>
                    (\<exists>n. int_max_str_digits < n \<and> e = ValueError_digits n))
            else 1 < count (tokens ! j) (CHR ''='') \<and> e = ValueError_unpack)"
    unfolding parse_enum_values_def by blast
  from e have "parse_step lines d current_doc i = Inl e"
    by (simp add: parse_step_enum [OF m])
  with assms(1) have "parse_loop lines d current_doc i = Inl e"
    by (subst parse_loop.simps) simp
  with j bad before sh show ?thesis by blast
qed

theorem enum_value_format_aborts_witness:
  "0 < length [''enum Color : int { A = 1, B = x }''] \<and>
   re_match re_enum (strip ([''enum Color : int { A = 1, B = x }''] ! 0)) \<noteq> None \<and>
   [''A = 1'', ''B = x''] =
     enum_tokens (fst (collect_block [''enum Color : int { A = 1, B = x }''] 0)) \<and>
   list_ex explicit_value_bad [''A = 1'', ''B = x''] \<and>
   (\<exists>j e. j < length [''A = 1'', ''B = x''] \<and>
      explicit_value_bad ([''A = 1'', ''B = x''] ! j) \<and>
      \<not> list_ex explicit_value_bad (take j [''A = 1'', ''B = x'']) \<and>
      parse_loop [''enum Color : int { A = 1, B = x }''] init_data [] 0 = Inl e \<and>
      (if count ([''A = 1'', ''B = x''] ! j) (CHR ''='') = 1
               then \<exists>k v. split ([''A = 1'', ''B = x''] ! j) (CHR ''='') = [k, v] \<and> py_int (strip v) = Inl e \<and>
                      (e = ValueError_int (strip v) \<or>
                       (\<exists>n. int_max_str_digits < n \<and> e = ValueError_digits n))
               else 1 < count ([''A = 1'', ''B = x''] ! j) (CHR ''='') \<and> e = ValueError_unpack)) \<and>
   parse_loop [''enum Color : int { A = 1, B = x }''] init_data [] 0
     = Inl (ValueError_int ''x'')"
proof -
  have h1: "0 < length [''enum Color : int { A = 1, B = x }'']" by simp
  have h2: "re_match re_enum (strip ([''enum Color : int { A = 1, B = x }''] ! 0)) \<noteq> None"
    by code_simp
  have h3: "[''A = 1'', ''B = x''] =
     enum_tokens (fst (collect_block [''enum Color : int { A = 1, B = x }''] 0))"
    by code_simp
  have h4: "list_ex explicit_value_bad [''A = 1'', ''B = x'']" by code_simp
  have ev: "parse_loop [''enum Color : int { A = 1, B = x }''] init_data [] 0
     = Inl (ValueError_int ''x'')"
    by code_simp
  from enum_value_format_aborts [OF h1 h2 h3 h4, of init_data "[]"] h1 h2 h3 h4 ev
  show ?thesis by blast
qed

text \<open>Claim C9 as stated fails: the error is the same whatever the enum and the enumerator
  are called, so it names neither.\<close>

theorem enum_value_error_without_names:
  "parse_content ''enum Color : int { Red = x }'' = Inl (ValueError_int ''x'') \<and>
   parse_content ''enum Shape : int { Box = x }'' = Inl (ValueError_int ''x'')"
  by code_simp

section \<open>Blocks that are never closed\<close>

lemma collect_loop_exhausts:
  assumes "depth_never_zero depth (drop i lines)" and "i \<le> length lines"
  shows "collect_loop lines i depth content = (content @ drop i lines, length lines)"
  using assms
proof (induction lines i depth content rule: collect_loop.induct)
  case (1 lines i depth content)
  show ?case
  proof (cases "i < length lines")
    case True
    define depth' where
      "depth' = depth + count (lines ! i) (CHR ''{'') - count (lines ! i) (CHR ''}'')"
    from True have d: "drop i lines = lines ! i # drop (i + 1) lines"
      by (simp add: Cons_nth_drop_Suc)
    with "1.prems"(1) have nz: "depth' \<noteq> 0"
      and rest: "depth_never_zero depth' (drop (i + 1) lines)"
      by (simp_all add: Let_def depth'_def)
    from True have "i + 1 \<le> length lines" by simp
    from "1.IH" [OF True depth'_def refl nz rest this]
    have "collect_loop lines (i + 1) depth' (content @ [lines ! i])
            = ((content @ [lines ! i]) @ drop (i + 1) lines, length lines)" .
    with True nz d show ?thesis
      by (subst collect_loop.simps) (simp add: Let_def depth'_def)
  next
    case False
    with "1.prems"(2) show ?thesis by (subst collect_loop.simps) simp
  qed
qed

text \<open>
  Claim C3, as the code has it.  When the end of the lines is reached before the brace depth
  of an opened block returns to zero, nothing detects it.  The block extractor raises
  nothing: its body is made of all the lines from the opening line to the end of the file
  (joined, the two brace patterns deleted, trimmed) and its index is one past the number of
  lines.  When the opening line is that of a union, a struct or a table, the parse stores the
  construct with that body and ends there, returning the document without any error.  When
  it is that of an enum, the parse does the same if every enumerator value of that body is
  accepted, and otherwise ends with the \<open>ValueError\<close> of the enumerator values; in no case
  with an error about the block.
\<close>

theorem unterminated_block_no_error:
  assumes "i < length lines"
    and "depth_never_zero 0 (drop i lines)"
    and "body = strip (re_sub_first re_close_brace (re_sub_first re_open_brace
                  (join [CHR 0x0A] (drop i lines))))"
  shows "collect_block lines i = (body, length lines + 1) \<and>
    (\<forall>m. re_match re_union (strip (lines ! i)) = Some m \<longrightarrow>
       parse_loop lines d current_doc i =
         Inr (d\<lparr>unions := AList.update (group m 1)
                   \<lparr>u_types = filter (\<lambda>t. t \<noteq> []) (map strip (split body (CHR '',''))),
                    u_doc = doc_text current_doc\<rparr> (unions d)\<rparr>)) \<and>
    (\<forall>m. re_match re_struct (strip (lines ! i)) = Some m \<longrightarrow>
       parse_loop lines d current_doc i =
         Inr (d\<lparr>structs := AList.update (group m 1)
                   \<lparr>s_fields = parse_fields d body, s_doc = doc_text current_doc\<rparr>
                   (structs d)\<rparr>)) \<and>
    (\<forall>m. re_match re_table (strip (lines ! i)) = Some m \<longrightarrow>
       parse_loop lines d current_doc i =
         Inr (d\<lparr>tables := AList.update (group m 1)
                   \<lparr>s_fields = parse_fields d body, s_doc = doc_text current_doc\<rparr>
                   (tables d)\<rparr>)) \<and>
    (\<forall>m. re_match re_enum (strip (lines ! i)) = Some m \<longrightarrow>
       parse_loop lines d current_doc i =
         (case parse_enum_values body of
            Inl e \<Rightarrow> Inl e
          | Inr vs \<Rightarrow>
              Inr (d\<lparr>enums := AList.update (group m 1)
                        \<lparr>e_base_type = group m 2, e_values = vs,
                         e_doc = doc_text current_doc\<rparr> (enums d)\<rparr>)))"
proof -
  from assms(1,2)
  have "collect_loop lines i 0 [] = ([] @ drop i lines, length lines)"
    by (intro collect_loop_exhausts) simp_all
  then have cb: "collect_block lines i = (body, length lines + 1)"
    by (simp add: collect_block_def Let_def assms(3))
  have stop: "parse_loop lines d' [] (length lines + 1) = Inr d'" for d'
    by (subst parse_loop.simps) simp
  have run: "parse_loop lines d current_doc i = Inr d'"
    if "parse_step lines d current_doc i = Inr (d', [], length lines + 1)" for d'
    using that assms(1) stop [of d'] by (subst parse_loop.simps) simp
  have un: "parse_loop lines d current_doc i =
         Inr (d\<lparr>unions := AList.update (group m 1)
                   \<lparr>u_types = filter (\<lambda>t. t \<noteq> []) (map strip (split body (CHR '',''))),
                    u_doc = doc_text current_doc\<rparr> (unions d)\<rparr>)"
    if "re_match re_union (strip (lines ! i)) = Some m" for m
    by (rule run) (simp add: parse_step_union [OF that] cb)
  have st: "parse_loop lines d current_doc i =
         Inr (d\<lparr>structs := AList.update (group m 1)
                   \<lparr>s_fields = parse_fields d body, s_doc = doc_text current_doc\<rparr>
                   (structs d)\<rparr>)"
    if "re_match re_struct (strip (lines ! i)) = Some m" for m
    by (rule run) (simp add: parse_step_struct [OF that] cb)
  have ta: "parse_loop lines d current_doc i =
         Inr (d\<lparr>tables := AList.update (group m 1)
                   \<lparr>s_fields = parse_fields d body, s_doc = doc_text current_doc\<rparr>
                   (tables d)\<rparr>)"
    if "re_match re_table (strip (lines ! i)) = Some m" for m
    by (rule run) (simp add: parse_step_table [OF that] cb)
  have en: "parse_loop lines d current_doc i =
         (case parse_enum_values body of
            Inl e \<Rightarrow> Inl e
          | Inr vs \<Rightarrow>
              Inr (d\<lparr>enums := AList.update (group m 1)
                        \<lparr>e_base_type = group m 2, e_values = vs,
                         e_doc = doc_text current_doc\<rparr> (enums d)\<rparr>))"
    if "re_match re_enum (strip (lines ! i)) = Some m" for m
  proof (cases "parse_enum_values body")
    case (Inl e)
    then have "parse_step lines d current_doc i = Inl e"
      by (simp add: parse_step_enum [OF that] cb)
    with assms(1) Inl show ?thesis by (subst parse_loop.simps) simp
  next
    case (Inr vs)
    then have "parse_step lines d current_doc i =
        Inr (d\<lparr>enums := AList.update (group m 1)
                        \<lparr>e_base_type = group m 2, e_values = vs,
                         e_doc = doc_text current_doc\<rparr> (enums d)\<rparr>, [], length lines + 1)"
      by (simp add: parse_step_enum [OF that] cb)
    from run [OF this] Inr show ?thesis by simp
  qed
  from cb un st ta en show ?thesis by blast
qed

theorem unterminated_block_no_error_witness:
  "0 < length [''table Foo {'', ''  x:int;''] \<and>
   depth_never_zero 0 (drop 0 [''table Foo {'', ''  x:int;'']) \<and>
   ''x:int;'' = strip (re_sub_first re_close_brace (re_sub_first re_open_brace
                  (join [CHR 0x0A] (drop 0 [''table Foo {'', ''  x:int;''])))) \<and>
   collect_block [''table Foo {'', ''  x:int;''] 0 = (''x:int;'', 3) \<and>
   parse_loop [''table Foo {'', ''  x:int;''] init_data [] 0 =
     Inr (init_data\<lparr>tables :=
            [(''Foo'', \<lparr>s_fields = [(''x'', \<lparr>f_type = ''int'', f_default = None,
                          f_metadata = None, f_doc = None, f_ref = None\<rparr>)],
                       s_doc = None\<rparr>)]\<rparr>) \<and>
   0 < length [''enum Color : byte { Red, Green'', ''table T {'', ''  id:int = 7;'', ''}''] \<and>
   depth_never_zero 0
     (drop 0 [''enum Color : byte { Red, Green'', ''table T {'', ''  id:int = 7;'', ''}'']) \<and>
   parse_loop [''enum Color : byte { Red, Green'', ''table T {'', ''  id:int = 7;'', ''}'']
     init_data [] 0 = Inl (ValueError_int ''7;'')"
proof -
  let ?L = "[''table Foo {'', ''  x:int;'']"
  let ?E = "[''enum Color : byte { Red, Green'', ''table T {'', ''  id:int = 7;'', ''}'']"
  let ?eb = "strip (re_sub_first re_close_brace (re_sub_first re_open_brace
                  (join [CHR 0x0A] (drop 0 ?E))))"
  have h1: "0 < length ?L" by simp
  have h2: "depth_never_zero 0 (drop 0 ?L)" by code_simp
  have h3: "''x:int;'' = strip (re_sub_first re_close_brace (re_sub_first re_open_brace
                  (join [CHR 0x0A] (drop 0 ?L))))"
    by code_simp
  note r = unterminated_block_no_error [OF h1 h2 h3, of init_data "[]"]
  from r have c: "collect_block ?L 0 = (''x:int;'', 3)" by simp
  have "map_option (\<lambda>m. group m 1) (re_match re_table (strip (?L ! 0))) = Some ''Foo''"
    by code_simp
  then obtain m where m: "re_match re_table (strip (?L ! 0)) = Some m" "group m 1 = ''Foo''"
    by auto
  have pf: "parse_fields init_data ''x:int;'' =
      [(''x'', \<lparr>f_type = ''int'', f_default = None, f_metadata = None, f_doc = None,
               f_ref = None\<rparr>)]"
    by code_simp
  have dt: "doc_text [] = None" by code_simp
  from r m(1) have "parse_loop ?L init_data [] 0 =
         Inr (init_data\<lparr>tables := AList.update (group m 1)
                   \<lparr>s_fields = parse_fields init_data ''x:int;'', s_doc = doc_text []\<rparr>
                   (tables init_data)\<rparr>)"
    by blast
  then have p: "parse_loop ?L init_data [] 0 =
     Inr (init_data\<lparr>tables :=
            [(''Foo'', \<lparr>s_fields = [(''x'', \<lparr>f_type = ''int'', f_default = None,
                          f_metadata = None, f_doc = None, f_ref = None\<rparr>)],
                       s_doc = None\<rparr>)]\<rparr>)"
    unfolding m(2) pf dt by (simp add: init_data_def)
  have e1: "0 < length ?E" by simp
  have e2: "depth_never_zero 0 (drop 0 ?E)" by code_simp
  note q = unterminated_block_no_error [OF e1 e2 refl, of init_data "[]"]
  have "re_match re_enum (strip (?E ! 0)) \<noteq> None" by code_simp
  then obtain n where n: "re_match re_enum (strip (?E ! 0)) = Some n" by blast
  have pe: "parse_enum_values ?eb = Inl (ValueError_int ''7;'')" by code_simp
  from q n have "parse_loop ?E init_data [] 0 =
         (case parse_enum_values ?eb of
            Inl e \<Rightarrow> Inl e
          | Inr vs \<Rightarrow>
              Inr (init_data\<lparr>enums := AList.update (group n 1)
                        \<lparr>e_base_type = group n 2, e_values = vs,
                         e_doc = doc_text []\<rparr> (enums init_data)\<rparr>))"
    by blast
  then have pq: "parse_loop ?E init_data [] 0 = Inl (ValueError_int ''7;'')"
    unfolding pe by simp
  from h1 h2 h3 c p e1 e2 pq show ?thesis by blast
qed

text \<open>Claim C3 as stated fails: a file that ends inside a table is parsed without any
  error, and the table is in the document.\<close>

theorem unterminated_block_returns_document:
  "parse_content ''table Foo {\<newline>  x:int;\<newline>'' =
   Inr \<lparr>namespace = None, attributes = [], enums = [], unions = [], structs = [],
        tables =
          [(''Foo'', \<lparr>s_fields = [(''x'', \<lparr>f_type = ''int'', f_default = None,
                       f_metadata = None, f_doc = None, f_ref = None\<rparr>)], s_doc = None\<rparr>)],
        root_type = None\<rparr>"
  by code_simp

section \<open>Documentation comments\<close>

lemma re_field_first_word:
  assumes "re_match re_field s = Some m"
  shows "\<exists>c cs. s = c # cs \<and> is_word c"
proof (cases s)
  case Nil
  with assms show ?thesis by (simp add: re_match_def re_field_def)
next
  case (Cons c cs)
  show ?thesis
  proof (cases "is_word c")
    case True
    with Cons show ?thesis by simp
  next
    case False
    with assms Cons show ?thesis by (simp add: re_match_def re_field_def)
  qed
qed

lemma not_word_slash: "\<not> is_word (CHR ''/'')"
  by code_simp

lemma not_word_brace: "\<not> is_word (CHR ''}'')"
  by code_simp

lemma field_line_match:
  assumes "re_match re_field (strip raw_line) = Some m"
  shows "parse_field_line local_types (flds, current_doc) raw_line =
    (AList.update (group m 1)
       \<lparr>f_type = strip (group m 2),
        f_default = strip_group '' ='' (m 3),
        f_metadata = strip_group ''()'' (m 4),
        f_doc = doc_text current_doc,
        f_ref = (if strip (group m 2) \<in> local_types then Some (strip (group m 2)) else None)\<rparr>
       flds, [])"
proof -
  from re_field_first_word [OF assms] obtain c cs
    where s: "strip raw_line = c # cs" and w: "is_word c" by blast
  from w not_word_slash not_word_brace have "c \<noteq> CHR ''/''" "c \<noteq> CHR ''}''" by auto
  with s assms show ?thesis
    by (simp add: parse_field_line_def Let_def startswith_def)
qed

lemma field_line_no_match:
  assumes "\<not> comment_line (strip raw_line)" "re_match re_field (strip raw_line) = None"
  shows "parse_field_line local_types (flds, current_doc) raw_line = (flds, current_doc)"
  using assms by (simp add: parse_field_line_def Let_def comment_line_def)

text \<open>
  Claim C6, as the code has it.  On a line that is not a comment line, the top-level scan
  either leaves the pending documentation and the declarations as they are (when the line
  opens no enum, union, struct or table: a namespace, attribute or root-type line, a blank or
  an unrecognised line), or stores the declaration the line opens with the pending
  documentation as its doc and empties the buffer.  So the documentation goes to the next
  declaration that follows, also across lines that are not declarations.  The same holds for
  the local buffer of a struct or table body and its field lines.
\<close>

theorem doc_buffer_kept_until_declaration:
  assumes "parse_step lines d current_doc i = Inr (d', current_doc', i')"
    and "\<not> comment_line (strip (lines ! i))"
    and "parse_field_line local_types (flds, local_doc) raw_line = (flds', local_doc')"
    and "\<not> comment_line (strip raw_line)"
  shows
    "(\<not> declaration_line (strip (lines ! i)) \<longrightarrow>
        current_doc' = current_doc \<and> enums d' = enums d \<and> unions d' = unions d \<and>
        structs d' = structs d \<and> tables d' = tables d) \<and>
     (\<forall>m. re_match re_enum (strip (lines ! i)) = Some m \<longrightarrow>
        current_doc' = [] \<and>
        map_option e_doc (map_of (enums d') (group m 1)) = Some (doc_text current_doc)) \<and>
     (\<forall>m. re_match re_union (strip (lines ! i)) = Some m \<longrightarrow>
        current_doc' = [] \<and>
        map_option u_doc (map_of (unions d') (group m 1)) = Some (doc_text current_doc)) \<and>
     (\<forall>m. re_match re_struct (strip (lines ! i)) = Some m \<longrightarrow>
        current_doc' = [] \<and>
        map_option s_doc (map_of (structs d') (group m 1)) = Some (doc_text current_doc)) \<and>
     (\<forall>m. re_match re_table (strip (lines ! i)) = Some m \<longrightarrow>
        current_doc' = [] \<and>
        map_option s_doc (map_of (tables d') (group m 1)) = Some (doc_text current_doc)) \<and>
     (re_match re_field (strip raw_line) = None \<longrightarrow>
        local_doc' = local_doc \<and> flds' = flds) \<and>
     (\<forall>m. re_match re_field (strip raw_line) = Some m \<longrightarrow>
        local_doc' = [] \<and>
        map_option f_doc (map_of flds' (group m 1)) = Some (doc_text local_doc))"
proof -
  have other: "\<not> declaration_line (strip (lines ! i)) \<longrightarrow>
        current_doc' = current_doc \<and> enums d' = enums d \<and> unions d' = unions d \<and>
        structs d' = structs d \<and> tables d' = tables d"
    using parse_step_other [OF assms(2) _ assms(1)] by blast
  have en: "current_doc' = [] \<and>
        map_option e_doc (map_of (enums d') (group m 1)) = Some (doc_text current_doc)"
    if "re_match re_enum (strip (lines ! i)) = Some m" for m
    using assms(1) unfolding parse_step_enum [OF that]
    by (auto simp: update_conv' split: sum.splits)
  have un: "current_doc' = [] \<and>
        map_option u_doc (map_of (unions d') (group m 1)) = Some (doc_text current_doc)"
    if "re_match re_union (strip (lines ! i)) = Some m" for m
    using assms(1) unfolding parse_step_union [OF that]
    by (auto simp: update_conv')
  have st: "current_doc' = [] \<and>
        map_option s_doc (map_of (structs d') (group m 1)) = Some (doc_text current_doc)"
    if "re_match re_struct (strip (lines ! i)) = Some m" for m
    using assms(1) unfolding parse_step_struct [OF that]
    by (auto simp: update_conv')
  have ta: "current_doc' = [] \<and>
        map_option s_doc (map_of (tables d') (group m 1)) = Some (doc_text current_doc)"
    if "re_match re_table (strip (lines ! i)) = Some m" for m
    using assms(1) unfolding parse_step_table [OF that]
    by (auto simp: update_conv')
  have fn: "re_match re_field (strip raw_line) = None \<longrightarrow>
        local_doc' = local_doc \<and> flds' = flds"
    using assms(3) field_line_no_match [OF assms(4)] by auto
  have fm: "local_doc' = [] \<and>
        map_option f_doc (map_of flds' (group m 1)) = Some (doc_text local_doc)"
    if "re_match re_field (strip raw_line) = Some m" for m
    using assms(3) unfolding field_line_match [OF that]
    by (auto simp: update_conv')
  from other en un st ta fn fm show ?thesis by blast
qed

theorem doc_buffer_kept_until_declaration_witness:
  "parse_step [''/// about Foo'', ''namespace a.b;'', ''table Foo {'', ''}'']
      (init_data\<lparr>namespace := Some ''a.b''\<rparr>) [''about Foo''] 2 =
     Inr (init_data\<lparr>namespace := Some ''a.b'',
            tables := [(''Foo'', \<lparr>s_fields = [], s_doc = Some ''about Foo''\<rparr>)]\<rparr>, [], 4) \<and>
   \<not> comment_line (strip ([''/// about Foo'', ''namespace a.b;'', ''table Foo {'', ''}''] ! 2)) \<and>
   parse_field_line {} ([], [''the id'']) ''  id:int;'' =
     ([(''id'', \<lparr>f_type = ''int'', f_default = None, f_metadata = None,
                f_doc = Some ''the id'', f_ref = None\<rparr>)], []) \<and>
   \<not> comment_line (strip ''  id:int;'') \<and>
   map_option s_doc (map_of (tables (init_data\<lparr>namespace := Some ''a.b'',
            tables := [(''Foo'', \<lparr>s_fields = [], s_doc = Some ''about Foo''\<rparr>)]\<rparr>)) ''Foo'')
     = Some (Some ''about Foo'') \<and>
   map_option f_doc (map_of [(''id'', \<lparr>f_type = ''int'', f_default = None, f_metadata = None,
                f_doc = Some ''the id'', f_ref = None\<rparr>)] ''id'') = Some (Some ''the id'')"
proof -
  let ?L = "[''/// about Foo'', ''namespace a.b;'', ''table Foo {'', ''}'']"
  let ?D1 = "init_data\<lparr>namespace := Some ''a.b''\<rparr>"
  let ?D2 = "init_data\<lparr>namespace := Some ''a.b'',
            tables := [(''Foo'', \<lparr>s_fields = [], s_doc = Some ''about Foo''\<rparr>)]\<rparr>"
  let ?F = "[(''id'', \<lparr>f_type = ''int'', f_default = None, f_metadata = None,
                f_doc = Some ''the id'', f_ref = None\<rparr>)]"
  have h1: "parse_step ?L ?D1 [''about Foo''] 2 = Inr (?D2, [], 4)" by code_simp
  have h2: "\<not> comment_line (strip (?L ! 2))" by code_simp
  have h3: "parse_field_line {} ([], [''the id'']) ''  id:int;'' = (?F, [])" by code_simp
  have h4: "\<not> comment_line (strip ''  id:int;'')" by code_simp
  note r = doc_buffer_kept_until_declaration [OF h1 h2 h3 h4]
  have "map_option (\<lambda>m. group m 1) (re_match re_table (strip (?L ! 2))) = Some ''Foo''"
    by code_simp
  then obtain m where m: "re_match re_table (strip (?L ! 2)) = Some m" "group m 1 = ''Foo''"
    by auto
  have "map_option (\<lambda>m. group m 1) (re_match re_field (strip ''  id:int;'')) = Some ''id''"
    by code_simp
  then obtain n where n: "re_match re_field (strip ''  id:int;'') = Some n" "group n 1 = ''id''"
    by auto
  have dt: "doc_text [''about Foo''] = Some ''about Foo''" "doc_text [''the id''] = Some ''the id''"
    by code_simp+
  from r m have "map_option s_doc (map_of (tables ?D2) (group m 1)) = Some (doc_text [''about Foo''])"
    by blast
  with m dt have c1: "map_option s_doc (map_of (tables ?D2) ''Foo'') = Some (Some ''about Foo'')"
    by simp
  from r n have "map_option f_doc (map_of ?F (group n 1)) = Some (doc_text [''the id''])"
    by blast
  with n dt have c2: "map_option f_doc (map_of ?F ''id'') = Some (Some ''the id'')"
    by simp
  from h1 h2 h3 h4 c1 c2 show ?thesis by blast
qed

text \<open>Claim C6 as stated fails: a documentation comment separated from a table by a
  namespace line still becomes the doc of the table.\<close>

theorem doc_attaches_across_namespace:
  "parse_content ''/// about Foo\<newline>namespace a.b;\<newline>table Foo {\<newline>  x:int;\<newline>}\<newline>'' =
   Inr \<lparr>namespace = Some ''a.b'', attributes = [], enums = [], unions = [], structs = [],
        tables =
          [(''Foo'', \<lparr>s_fields = [(''x'', \<lparr>f_type = ''int'', f_default = None,
                       f_metadata = None, f_doc = None, f_ref = None\<rparr>)],
              s_doc = Some ''about Foo''\<rparr>)],
        root_type = None\<rparr>"
  by code_simp

end
